theory Spec2Isabelle
  imports Complex_Main "HOL-Library.Multiset"
begin

section \<open>Data model (internal/models)\<close>

text \<open>
  The Go types \<open>ClaimType\<close>, \<open>VerificationStatus\<close> and \<open>SourceType\<close> are named string
  types, so they are strings here and their constants are string constants. A
  \<open>float64\<close> is idealised as an exact rational (\<open>rat\<close>); \<open>time.Time\<close> is a count of
  clock ticks with \<open>0\<close> for the zero time. A Go \<open>int\<close> that only ever holds a length
  or a counter bounded by a length is a \<open>nat\<close>.
\<close>

type_synonym ClaimType = string
type_synonym VerificationStatus = string
type_synonym SourceType = string
type_synonym Time = nat

definition StatusVerified :: VerificationStatus where "StatusVerified = ''verified''"
definition StatusMixed :: VerificationStatus where "StatusMixed = ''mixed''"
definition StatusUnsupported :: VerificationStatus where "StatusUnsupported = ''unsupported''"
definition StatusPending :: VerificationStatus where "StatusPending = ''pending''"

definition SourceTypeEvidenceBacked :: SourceType where
  "SourceTypeEvidenceBacked = ''evidence_backed''"
definition SourceTypeModelBased :: SourceType where
  "SourceTypeModelBased = ''model_based''"

definition ClaimTypes :: "ClaimType set" where
  "ClaimTypes = {''statistical'', ''factual'', ''temporal'', ''geographic'', ''citation'',
     ''comparative'', ''causal'', ''custom''}"

record Evidence =
  e_ID :: string
  e_SourceName :: string
  e_SourceURL :: string
  e_SourceType :: string
  e_Snippet :: string
  e_RelevanceScore :: rat
  e_RetrievedAt :: Time

record Claim =
  c_ID :: string
  c_Text :: string
  c_Type :: ClaimType
  c_SentenceIndex :: int
  c_Status :: VerificationStatus
  c_Confidence :: rat
  c_SourceType :: SourceType
  c_Evidences :: "Evidence list"
  c_Reasoning :: string
  c_CreatedAt :: Time

record AnalysisResult =
  a_ID :: string
  a_DocumentHash :: string
  a_OverallScore :: rat
  a_TotalClaims :: nat
  a_VerifiedClaims :: nat
  a_MixedClaims :: nat
  a_UnsupportedClaims :: nat
  a_ProcessingTimeMs :: int
  a_Status :: string
  a_CreatedAt :: Time

record Warning =
  w_Source :: string
  w_Message :: string

record VerificationResponse =
  r_ID :: string
  r_DocumentHash :: string
  r_Analysis :: AnalysisResult
  r_Claims :: "Claim list"
  r_Warnings :: "Warning list"

section \<open>The outside world\<close>

text \<open>
  Every call that leaves the process is recorded in a trace (newest event first), and
  what the outside answers is given by an environment of oracles that may depend on the
  whole trace so far. An error value of Go is its message. A call of this package
  returning \<open>(value, error)\<close> with a nil value beside every error is a sum with \<open>Inl\<close>
  for the error. The calls through the \<open>Store\<close> and \<open>SearchClient\<close> interfaces return a
  pair of a value and an optional error, since their callers look at the two separately.
  The errors of the two save operations of the store are only logged, so the saves
  appear in the trace and nothing else. The prompts sent to the language model are fixed
  templates filled with data; a prompt is represented by the data that fills it. Log
  output is not modelled.
\<close>

record verificationResult =
  vr_Status :: string
  vr_Confidence :: rat
  vr_Reasoning :: string

record extractedClaim =
  ec_Text :: string
  ec_Type :: string
  ec_SentenceIndex :: int

record extractionResult =
  er_Claims :: "extractedClaim list"

datatype prompt =
    ExtractPrompt "(string \<times> string \<times> string) list" string
  | VerifyPrompt string "Evidence list"
  | KnowledgePrompt string

datatype event =
    LLMCall prompt nat
  | SourceSearch string string nat
  | GetAnalysisByHash string
  | GetClaimsByAnalysis string
  | SaveAnalysis AnalysisResult
  | SaveClaims string "Claim list"
  | NewUUID

type_synonym trace = "event list"

datatype select_case = RecvResult nat | RecvTimeout | RecvDone

record Env =
  CompleteWithSystem :: "trace \<Rightarrow> prompt \<Rightarrow> nat \<Rightarrow> string + string"
  TrimSpace :: "string \<Rightarrow> string"
  FindFence :: "string \<Rightarrow> string option"
  UnmarshalVerification :: "string \<Rightarrow> string + verificationResult"
  UnmarshalExtraction :: "string \<Rightarrow> string + extractionResult"
  uuid_New :: "trace \<Rightarrow> string"
  time_Now :: "trace \<Rightarrow> Time"
  sha256_hex :: "string \<Rightarrow> string"
  store_GetAnalysisByHash :: "trace \<Rightarrow> string \<Rightarrow> AnalysisResult option \<times> string option"
  store_GetClaimsByAnalysis :: "trace \<Rightarrow> string \<Rightarrow> Claim list \<times> string option"
  select_schedule :: "trace \<Rightarrow> select_case list"
  ddg_Search :: "trace \<Rightarrow> string \<Rightarrow> nat \<Rightarrow> Evidence list \<times> string option"
  pubmed_Search :: "trace \<Rightarrow> string \<Rightarrow> nat \<Rightarrow> Evidence list \<times> string option"

definition llmCalls :: "trace \<Rightarrow> nat" where
  "llmCalls tr = length (filter (\<lambda>e. case e of LLMCall p n \<Rightarrow> True | _ \<Rightarrow> False) tr)"

definition searchCalls :: "trace \<Rightarrow> nat" where
  "searchCalls tr = length (filter (\<lambda>e. case e of SourceSearch s q n \<Rightarrow> True | _ \<Rightarrow> False) tr)"

section \<open>String helpers of the Go library\<close>

fun Index :: "string \<Rightarrow> char \<Rightarrow> int" where
  "Index [] c = -1"
| "Index (x # xs) c =
     (if x = c then 0 else (let i = Index xs c in if i < 0 then -1 else i + 1))"

definition LastIndex :: "string \<Rightarrow> char \<Rightarrow> int" where
  "LastIndex s c = (let i = Index (rev s) c in if i < 0 then -1 else int (length s) - 1 - i)"

definition HasPrefix :: "string \<Rightarrow> string \<Rightarrow> bool" where
  "HasPrefix s p = (take (length p) s = p)"

definition slice :: "string \<Rightarrow> int \<Rightarrow> int \<Rightarrow> string" where
  "slice s lo hi = take (nat (hi - lo)) (drop (nat lo) s)"

section \<open>Claim verifier\<close>

text \<open>
  \<open>parseResponse\<close>: trim, take the body of a fenced block when the response starts
  with a fence, decode; when decoding fails retry on the text from the first opening
  brace to the last closing brace.
\<close>

definition stripFence :: "Env \<Rightarrow> string \<Rightarrow> string" where
  "stripFence env response0 =
     (let response = TrimSpace env response0 in
      if HasPrefix response ''```'' then
        (case FindFence env response of Some m \<Rightarrow> m | None \<Rightarrow> response)
      else response)"

definition verifier_parseResponse :: "Env \<Rightarrow> string \<Rightarrow> string + verificationResult" where
  "verifier_parseResponse env response0 =
     (let response = stripFence env response0 in
      case UnmarshalVerification env response of
        Inr result \<Rightarrow> Inr result
      | Inl err \<Rightarrow>
          (let start = Index response CHR ''{''; end = LastIndex response CHR ''}'' in
           if start \<ge> 0 \<and> end > start then
             (case UnmarshalVerification env (slice response start (end + 1)) of
                Inl err2 \<Rightarrow> Inl (''invalid JSON: '' @ err2)
              | Inr result \<Rightarrow> Inr result)
           else Inl ''no JSON found in response''))"

definition statusOf :: "string \<Rightarrow> VerificationStatus" where
  "statusOf s =
     (if s = ''verified'' then StatusVerified
      else if s = ''mixed'' then StatusMixed
      else if s = ''unsupported'' then StatusUnsupported
      else StatusUnsupported)"

text \<open>
  The four results of \<open>Verify\<close> and \<open>VerifyWithoutEvidence\<close> are a tuple
  \<open>(status, confidence, reasoning, error)\<close> with \<open>None\<close> for a nil error, paired
  with the trace after the call.
\<close>

type_synonym verdict = "VerificationStatus \<times> rat \<times> string \<times> string option"

definition DefaultMaxTokens :: nat where "DefaultMaxTokens = 2048"

definition Verify :: "Env \<Rightarrow> trace \<Rightarrow> Claim \<Rightarrow> Evidence list \<Rightarrow> verdict \<times> trace" where
  "Verify env tr claim evidences =
     (if length evidences = 0 then
        ((StatusUnsupported, 0, ''No evidence found to support this claim'', None), tr)
      else
        (let p = VerifyPrompt (c_Text claim) evidences;
             tr1 = LLMCall p DefaultMaxTokens # tr in
         case CompleteWithSystem env tr p DefaultMaxTokens of
           Inl err \<Rightarrow> ((StatusUnsupported, 0, '''', Some (''verification failed: '' @ err)), tr1)
         | Inr response \<Rightarrow>
             (case verifier_parseResponse env response of
                Inl err \<Rightarrow>
                  ((StatusUnsupported, 0, '''',
                    Some (''failed to parse verification response: '' @ err)), tr1)
              | Inr result \<Rightarrow>
                  ((statusOf (vr_Status result), vr_Confidence result, vr_Reasoning result,
                    None), tr1))))"

definition VerifyWithoutEvidence :: "Env \<Rightarrow> trace \<Rightarrow> Claim \<Rightarrow> verdict \<times> trace" where
  "VerifyWithoutEvidence env tr claim =
     (let p = KnowledgePrompt (c_Text claim);
          tr1 = LLMCall p DefaultMaxTokens # tr in
      case CompleteWithSystem env tr p DefaultMaxTokens of
        Inl err \<Rightarrow> ((StatusUnsupported, 0, '''', Some (''verification failed: '' @ err)), tr1)
      | Inr response \<Rightarrow>
          (case verifier_parseResponse env response of
             Inl err \<Rightarrow>
               ((StatusUnsupported, 0, '''',
                 Some (''failed to parse verification response: '' @ err)), tr1)
           | Inr result \<Rightarrow>
               ((statusOf (vr_Status result), vr_Confidence result,
                 vr_Reasoning result @
                   '' [Note: Verified using model knowledge only, without external evidence sources]'',
                 None), tr1)))"

section \<open>Claim extractor\<close>

record ClaimExtractor =
  customClaimTypes :: "(string \<times> string \<times> string) list"

text \<open>
  The loop at the end of the extractor's \<open>parseResponse\<close>: one claim per decoded
  entry, each with a fresh identifier, status pending and every other field at its
  zero value.
\<close>

fun buildClaims :: "Env \<Rightarrow> trace \<Rightarrow> extractedClaim list \<Rightarrow> Claim list \<times> trace" where
  "buildClaims env tr [] = ([], tr)"
| "buildClaims env tr (ec # ecs) =
     (let c = \<lparr> c_ID = uuid_New env tr, c_Text = ec_Text ec, c_Type = ec_Type ec,
                c_SentenceIndex = ec_SentenceIndex ec, c_Status = StatusPending,
                c_Confidence = 0, c_SourceType = '''', c_Evidences = [],
                c_Reasoning = '''', c_CreatedAt = 0 \<rparr>;
          (cs, tr') = buildClaims env (NewUUID # tr) ecs
      in (c # cs, tr'))"

definition extractor_decode :: "Env \<Rightarrow> string \<Rightarrow> string + extractionResult" where
  "extractor_decode env response0 =
     (let response = stripFence env response0 in
      case UnmarshalExtraction env response of
        Inr result \<Rightarrow> Inr result
      | Inl err \<Rightarrow>
          (let start = Index response CHR ''{''; end = LastIndex response CHR ''}'' in
           if start \<ge> 0 \<and> end > start then
             (case UnmarshalExtraction env (slice response start (end + 1)) of
                Inl err2 \<Rightarrow> Inl (''invalid JSON: '' @ err2)
              | Inr result \<Rightarrow> Inr result)
           else Inl ''no JSON found in response''))"

definition extractor_parseResponse ::
  "Env \<Rightarrow> trace \<Rightarrow> string \<Rightarrow> (string + Claim list) \<times> trace" where
  "extractor_parseResponse env tr response =
     (case extractor_decode env response of
        Inl err \<Rightarrow> (Inl err, tr)
      | Inr result \<Rightarrow>
          (let (claims, tr') = buildClaims env tr (er_Claims result) in (Inr claims, tr')))"

definition Extract ::
  "ClaimExtractor \<Rightarrow> Env \<Rightarrow> trace \<Rightarrow> string \<Rightarrow> (string + Claim list) \<times> trace" where
  "Extract ex env tr text =
     (let p = ExtractPrompt (customClaimTypes ex) text;
          tr1 = LLMCall p 4096 # tr in
      case CompleteWithSystem env tr p 4096 of
        Inl err \<Rightarrow> (Inl (''failed to extract claims: '' @ err), tr1)
      | Inr response \<Rightarrow>
          (case extractor_parseResponse env tr1 response of
             (Inl err, tr2) \<Rightarrow> (Inl (''failed to parse extraction response: '' @ err), tr2)
           | (Inr claims, tr2) \<Rightarrow> (Inr claims, tr2)))"

section \<open>Evidence aggregator (internal/search)\<close>

record SearchClient =
  sc_Name :: string
  sc_Available :: bool
  sc_Search :: "trace \<Rightarrow> string \<Rightarrow> nat \<Rightarrow> Evidence list \<times> string option"

definition NewDuckDuckGoClient :: "Env \<Rightarrow> SearchClient" where
  "NewDuckDuckGoClient env =
     \<lparr> sc_Name = ''DuckDuckGo'', sc_Available = True, sc_Search = ddg_Search env \<rparr>"

definition NewPubMedClient :: "Env \<Rightarrow> SearchClient" where
  "NewPubMedClient env =
     \<lparr> sc_Name = ''PubMed'', sc_Available = True, sc_Search = pubmed_Search env \<rparr>"

record AggregatedSearchClient =
  clients :: "SearchClient list"

definition NewAggregatedSearchClient :: "SearchClient list \<Rightarrow> AggregatedSearchClient" where
  "NewAggregatedSearchClient cs = \<lparr> clients = filter sc_Available cs \<rparr>"

definition HasClients :: "AggregatedSearchClient \<Rightarrow> bool" where
  "HasClients a = (length (clients a) > 0)"

record SearchResult =
  sr_Source :: string
  sr_Evidences :: "Evidence list"
  sr_Error :: "string option"

text \<open>
  One goroutine per client calls the client's \<open>Search\<close> and sends its result to the
  buffered channel. The calls are recorded in client order; the order in which the
  results are received is decided by the schedule below.
\<close>

fun launch :: "trace \<Rightarrow> string \<Rightarrow> nat \<Rightarrow> SearchClient list \<Rightarrow> SearchResult list \<times> trace" where
  "launch tr query maxResults [] = ([], tr)"
| "launch tr query maxResults (c # cs) =
     (let (evidences, err) = sc_Search c tr query maxResults;
          result = \<lparr> sr_Source = sc_Name c, sr_Evidences = evidences, sr_Error = err \<rparr>;
          (results, tr') = launch (SourceSearch (sc_Name c) query maxResults # tr) query maxResults cs
      in (result # results, tr'))"

text \<open>
  The collection loop \<open>for i := 0; i < len(a.clients); i++ { select { ... } }\<close>. Each
  iteration executes one \<open>select\<close>; the schedule says which of its cases fires:
  \<open>RecvResult k\<close> receives the \<open>k\<close>-th result not yet received, \<open>RecvTimeout\<close> receives
  from the timer channel of \<open>time.After\<close> (which delivers one value only), \<open>RecvDone\<close>
  receives from \<open>ctx.Done()\<close>. The \<open>break\<close> statements in the timeout and cancellation
  cases end the \<open>select\<close> statement, not the loop, so every case is followed by the next
  iteration. A schedule that offers no case that can fire leaves the loop waiting:
  the result is \<open>None\<close>.
\<close>

fun collect ::
  "nat \<Rightarrow> select_case list \<Rightarrow> SearchResult list \<Rightarrow> bool \<Rightarrow> Evidence list \<Rightarrow> Warning list
     \<Rightarrow> (Evidence list \<times> Warning list) option" where
  "collect 0 sched pending timer allEvidences warnings = Some (allEvidences, warnings)"
| "collect (Suc n) [] pending timer allEvidences warnings = None"
| "collect (Suc n) (RecvResult k # sched) pending timer allEvidences warnings =
     (if k < length pending then
        (let result = pending ! k;
             pending' = take k pending @ drop (Suc k) pending in
         case sr_Error result of
           Some err \<Rightarrow>
             collect n sched pending' timer allEvidences
               (warnings @ [\<lparr> w_Source = sr_Source result, w_Message = err \<rparr>])
         | None \<Rightarrow>
             collect n sched pending' timer (allEvidences @ sr_Evidences result) warnings)
      else None)"
| "collect (Suc n) (RecvTimeout # sched) pending timer allEvidences warnings =
     (if timer then
        collect n sched pending False allEvidences
          (warnings @ [\<lparr> w_Source = ''search'', w_Message = ''Some sources timed out'' \<rparr>])
      else None)"
| "collect (Suc n) (RecvDone # sched) pending timer allEvidences warnings =
     collect n sched pending timer allEvidences
       (warnings @ [\<lparr> w_Source = ''search'', w_Message = ''Search cancelled'' \<rparr>])"

definition Search ::
  "AggregatedSearchClient \<Rightarrow> Env \<Rightarrow> trace \<Rightarrow> string \<Rightarrow> nat
     \<Rightarrow> ((Evidence list \<times> Warning list) \<times> trace) option" where
  "Search a env tr query maxResultsPerSource =
     (if length (clients a) = 0 then
        Some (([], [\<lparr> w_Source = ''search'', w_Message = ''No search sources configured'' \<rparr>]), tr)
      else
        (let (results, tr') = launch tr query maxResultsPerSource (clients a) in
         case collect (length (clients a)) (select_schedule env tr') results True [] [] of
           None \<Rightarrow> None
         | Some r \<Rightarrow> Some (r, tr')))"

section \<open>Verification engine\<close>

record SearchConfig =
  DuckDuckGo :: bool
  PubMed :: bool

record Engine =
  extractor :: ClaimExtractor
  searchClient :: AggregatedSearchClient
  airGapped :: bool

definition NewEngine ::
  "SearchConfig \<Rightarrow> (string \<times> string \<times> string) list \<Rightarrow> Env \<Rightarrow> Engine" where
  "NewEngine cfg customTypes env =
     (let clients1 = (if DuckDuckGo cfg then [NewDuckDuckGoClient env] else []);
          clients2 = (if PubMed cfg then clients1 @ [NewPubMedClient env] else clients1);
          sc = NewAggregatedSearchClient clients2
      in \<lparr> extractor = \<lparr> customClaimTypes = customTypes \<rparr>,
            searchClient = sc,
            airGapped = (\<not> HasClients sc) \<rparr>)"

text \<open>
  The body of one verification goroutine: it fills the slot of its own claim and
  hands its search warnings to the shared list.
\<close>

definition settle ::
  "Env \<Rightarrow> trace \<Rightarrow> Claim \<Rightarrow> SourceType \<Rightarrow> verdict \<Rightarrow> string \<Rightarrow> Evidence list \<Rightarrow> Claim" where
  "settle env tr claim st v errReasoning evidences =
     (case v of (status, confidence, reasoning, err) \<Rightarrow>
        claim \<lparr> c_SourceType := st,
                c_Status := (case err of Some x \<Rightarrow> StatusUnsupported | None \<Rightarrow> status),
                c_Confidence := confidence,
                c_Reasoning := (case err of Some x \<Rightarrow> errReasoning | None \<Rightarrow> reasoning),
                c_Evidences := evidences,
                c_CreatedAt := time_Now env tr \<rparr>)"

definition verifyOne ::
  "Engine \<Rightarrow> Env \<Rightarrow> trace \<Rightarrow> Claim \<Rightarrow> ((Claim \<times> Warning list) \<times> trace) option" where
  "verifyOne e env tr claim =
     (if airGapped e then
        (let (v, tr1) = VerifyWithoutEvidence env tr claim in
         Some ((settle env tr1 claim SourceTypeModelBased v ''Verification error'' [], []), tr1))
      else
        (case Search (searchClient e) env tr (c_Text claim) 6 of
           None \<Rightarrow> None
         | Some ((searchResults, searchWarnings), tr1) \<Rightarrow>
             (if length searchResults = 0 then
                (let (v, tr2) = VerifyWithoutEvidence env tr1 claim in
                 Some ((settle env tr2 claim SourceTypeModelBased v
                          ''Verification error - no evidence found'' searchResults,
                        searchWarnings), tr2))
              else
                (let (v, tr2) = Verify env tr1 claim searchResults in
                 Some ((settle env tr2 claim SourceTypeEvidenceBacked v
                          ''Verification error'' searchResults,
                        searchWarnings), tr2)))))"

text \<open>
  \<open>verifyClaims\<close> starts one goroutine per claim and waits for all of them. Each
  goroutine writes only the slot of its own index, so the claims come back in their
  original order; the model runs the goroutine bodies in index order. The admission
  semaphore is modelled separately below.
\<close>

fun verifyClaims ::
  "Engine \<Rightarrow> Env \<Rightarrow> trace \<Rightarrow> Claim list \<Rightarrow> ((Claim list \<times> Warning list) \<times> trace) option" where
  "verifyClaims e env tr [] = Some (([], []), tr)"
| "verifyClaims e env tr (claim # rest) =
     (case verifyOne e env tr claim of
        None \<Rightarrow> None
      | Some ((claim', ws), tr1) \<Rightarrow>
          (case verifyClaims e env tr1 rest of
             None \<Rightarrow> None
           | Some ((rest', ws'), tr2) \<Rightarrow> Some ((claim' # rest', ws @ ws'), tr2)))"

fun tally :: "Claim list \<Rightarrow> nat \<times> nat \<times> nat \<Rightarrow> nat \<times> nat \<times> nat" where
  "tally [] acc = acc"
| "tally (claim # claims) (verified, mixed, unsupported) =
     (if c_Status claim = StatusVerified then tally claims (verified + 1, mixed, unsupported)
      else if c_Status claim = StatusMixed then tally claims (verified, mixed + 1, unsupported)
      else if c_Status claim = StatusUnsupported then
        tally claims (verified, mixed, unsupported + 1)
      else tally claims (verified, mixed, unsupported))"

definition calculateAnalysis ::
  "Env \<Rightarrow> trace \<Rightarrow> string \<Rightarrow> Claim list \<Rightarrow> int \<Rightarrow> AnalysisResult \<times> trace" where
  "calculateAnalysis env tr docHash claims duration =
     (case tally claims (0, 0, 0) of (verified, mixed, unsupported) \<Rightarrow>
        (let score =
               (if length claims > 0 then
                  ((of_nat verified + of_nat mixed * (1 / 2)) / of_nat (length claims)) * 10
                else 0)
         in (\<lparr> a_ID = uuid_New env tr,
                a_DocumentHash = docHash,
                a_OverallScore = score,
                a_TotalClaims = length claims,
                a_VerifiedClaims = verified,
                a_MixedClaims = mixed,
                a_UnsupportedClaims = unsupported,
                a_ProcessingTimeMs = duration,
                a_Status = ''completed'',
                a_CreatedAt = time_Now env (NewUUID # tr) \<rparr>,
             NewUUID # tr)))"

text \<open>
  \<open>VerifyText\<close> after the cache lookup has found nothing: steps 1 to 4 of the source.
  An extraction error ends the run with that error; save errors are only logged.
\<close>

definition runPipeline ::
  "Engine \<Rightarrow> Env \<Rightarrow> trace \<Rightarrow> string \<Rightarrow> string \<Rightarrow> Time
     \<Rightarrow> ((string + VerificationResponse) \<times> trace) option" where
  "runPipeline e env tr text docHash startTime =
     (case Extract (extractor e) env tr text of
        (Inl err, tr1) \<Rightarrow> Some (Inl err, tr1)
      | (Inr claims0, tr1) \<Rightarrow>
          (case verifyClaims e env tr1 claims0 of
             None \<Rightarrow> None
           | Some ((claims, claimWarnings), tr2) \<Rightarrow>
               (case calculateAnalysis env tr2 docHash claims
                       (int (time_Now env tr2) - int startTime) of
                  (analysis, tr3) \<Rightarrow>
                    Some (Inr \<lparr> r_ID = a_ID analysis,
                                r_DocumentHash = docHash,
                                r_Analysis = analysis,
                                r_Claims = claims,
                                r_Warnings = claimWarnings \<rparr>,
                          SaveClaims (a_ID analysis) claims # SaveAnalysis analysis # tr3))))"

definition VerifyText ::
  "Engine \<Rightarrow> Env \<Rightarrow> trace \<Rightarrow> string \<Rightarrow> ((string + VerificationResponse) \<times> trace) option" where
  "VerifyText e env tr text =
     (let startTime = time_Now env tr;
          docHash = sha256_hex env text;
          tr1 = GetAnalysisByHash docHash # tr;
          existing = fst (store_GetAnalysisByHash env tr docHash)
      in case existing of
           Some ex \<Rightarrow>
             (let claims = fst (store_GetClaimsByAnalysis env tr1 (a_ID ex))
              in Some (Inr \<lparr> r_ID = a_ID ex,
                              r_DocumentHash = docHash,
                              r_Analysis = ex,
                              r_Claims = claims,
                              r_Warnings = [] \<rparr>,
                       GetClaimsByAnalysis (a_ID ex) # tr1))
         | None \<Rightarrow> runPipeline e env tr1 text docHash startTime)"

section \<open>The admission semaphore of verifyClaims\<close>

text \<open>
  Each goroutine of \<open>verifyClaims\<close> first sends a token to the channel
  \<open>semaphore\<close> of capacity 5, which blocks while the buffer is full, then does its
  verification work, and receives a token back when it returns (the deferred receive).
  A goroutine is therefore waiting for admission, in flight, or finished. The scheduler
  is a list of goroutine indices: the chosen goroutine takes its next step if it can
  and stays where it is when its send is blocked. The channel is created inside
  \<open>verifyClaims\<close>, so every run starts from \<open>sem_init\<close>.
\<close>

datatype task_state = Waiting | InFlight | Finished

record run_state =
  tasks :: "task_state list"
  semaphore :: nat

definition semaphore_cap :: nat where "semaphore_cap = 5"

definition sem_init :: "nat \<Rightarrow> run_state" where
  "sem_init n = \<lparr> tasks = replicate n Waiting, semaphore = 0 \<rparr>"

definition sem_step :: "run_state \<Rightarrow> nat \<Rightarrow> run_state" where
  "sem_step s idx =
     (if idx < length (tasks s) then
        (case tasks s ! idx of
           Waiting \<Rightarrow>
             (if semaphore s < semaphore_cap then
                s \<lparr> tasks := (tasks s)[idx := InFlight], semaphore := semaphore s + 1 \<rparr>
              else s)
         | InFlight \<Rightarrow> s \<lparr> tasks := (tasks s)[idx := Finished], semaphore := semaphore s - 1 \<rparr>
         | Finished \<Rightarrow> s)
      else s)"

definition sem_run :: "nat \<Rightarrow> nat list \<Rightarrow> run_state" where
  "sem_run n sched = foldl sem_step (sem_init n) sched"

definition inFlight :: "run_state \<Rightarrow> nat" where
  "inFlight s = length (filter (\<lambda>t. t = InFlight) (tasks s))"

section \<open>Auxiliary notions\<close>

text \<open>
  A claim is settled when its status is one of the three verdicts. \<open>cached\<close> is the
  value of \<open>existing\<close> in \<open>VerifyText\<close>: the analysis that the store's lookup by hash
  returns, if any.
\<close>

definition settled :: "Claim \<Rightarrow> bool" where
  "settled c =
     (c_Status c = StatusVerified \<or> c_Status c = StatusMixed \<or> c_Status c = StatusUnsupported)"

definition cached :: "Env \<Rightarrow> trace \<Rightarrow> string \<Rightarrow> AnalysisResult option" where
  "cached env tr text = fst (store_GetAnalysisByHash env tr (sha256_hex env text))"

definition noSourcesWarning :: Warning where
  "noSourcesWarning = \<lparr> w_Source = ''search'', w_Message = ''No search sources configured'' \<rparr>"

text \<open>
  \<open>receipts sched pending\<close> lists, in the order of receipt, the results that the
  collection loop receives from the channel when its \<open>select\<close> statements fire as
  \<open>sched\<close> says; \<open>withoutError\<close> keeps the results whose \<open>Error\<close> is nil.
\<close>

fun receipts :: "select_case list \<Rightarrow> SearchResult list \<Rightarrow> SearchResult list" where
  "receipts [] pending = []"
| "receipts (RecvResult k # sched) pending =
     (if k < length pending then
        pending ! k # receipts sched (take k pending @ drop (Suc k) pending)
      else [])"
| "receipts (RecvTimeout # sched) pending = receipts sched pending"
| "receipts (RecvDone # sched) pending = receipts sched pending"

definition withoutError :: "SearchResult list \<Rightarrow> SearchResult list" where
  "withoutError rs = filter (\<lambda>r. sr_Error r = None) rs"

section \<open>A concrete environment\<close>

text \<open>
  A small world used to run the definitions: a model that answers every extraction
  with the same two claims, two search sources that both report the same address, a
  store that holds one analysis and cannot load its claims.
\<close>

definition demoEvidence :: "string \<Rightarrow> string \<Rightarrow> string \<Rightarrow> Evidence" where
  "demoEvidence name url snippet =
     \<lparr> e_ID = ''ev'', e_SourceName = name, e_SourceURL = url, e_SourceType = ''web_page'',
       e_Snippet = snippet, e_RelevanceScore = 0, e_RetrievedAt = 0 \<rparr>"

definition demoExtraction :: extractionResult where
  "demoExtraction =
     \<lparr> er_Claims =
         [\<lparr> ec_Text = ''The bridge is the best in town'', ec_Type = ''opinion'',
            ec_SentenceIndex = 0 \<rparr>,
          \<lparr> ec_Text = ''The bridge opened in 1932'', ec_Type = ''temporal'',
            ec_SentenceIndex = 1 \<rparr>] \<rparr>"

definition demoAnalysis :: AnalysisResult where
  "demoAnalysis =
     \<lparr> a_ID = ''analysis-1'', a_DocumentHash = ''cached text'', a_OverallScore = 5,
       a_TotalClaims = 3, a_VerifiedClaims = 1, a_MixedClaims = 1, a_UnsupportedClaims = 1,
       a_ProcessingTimeMs = 1200, a_Status = ''completed'', a_CreatedAt = 7 \<rparr>"

definition demoClaim :: Claim where
  "demoClaim =
     \<lparr> c_ID = ''claim-1'', c_Text = ''The bridge opened in 1932'', c_Type = ''temporal'',
       c_SentenceIndex = 0, c_Status = StatusPending, c_Confidence = 0, c_SourceType = [],
       c_Evidences = [], c_Reasoning = [], c_CreatedAt = 0 \<rparr>"

definition demoEnv :: Env where
  "demoEnv =
     \<lparr> CompleteWithSystem =
         (\<lambda>tr p n. case p of
                      ExtractPrompt ts t \<Rightarrow>
                        if t = ''fail'' then Inl ''quota''
                        else if t = ''No facts here.'' then Inr ''N''
                        else Inr ''E''
                    | VerifyPrompt t evs \<Rightarrow> Inr ''V''
                    | KnowledgePrompt t \<Rightarrow> Inr ''K''),
       TrimSpace = (\<lambda>s. s),
       FindFence = (\<lambda>s. None),
       UnmarshalVerification =
         (\<lambda>s. if s = ''V'' then
                 Inr \<lparr> vr_Status = ''verified'', vr_Confidence = 9 / 10, vr_Reasoning = ''ok'' \<rparr>
               else if s = ''K'' then
                 Inr \<lparr> vr_Status = ''mixed'', vr_Confidence = 1 / 2, vr_Reasoning = ''maybe'' \<rparr>
               else Inl ''bad''),
       UnmarshalExtraction =
         (\<lambda>s. if s = ''E'' then Inr demoExtraction
               else if s = ''N'' then Inr \<lparr> er_Claims = [] \<rparr>
               else Inl ''bad''),
       uuid_New = (\<lambda>tr. replicate (length tr) CHR ''u''),
       time_Now = (\<lambda>tr. length tr),
       sha256_hex = (\<lambda>s. s),
       store_GetAnalysisByHash =
         (\<lambda>tr h. if h = ''cached text'' then (Some demoAnalysis, None)
                  else if h = ''broken'' then (None, Some ''database is locked'')
                  else (None, None)),
       store_GetClaimsByAnalysis = (\<lambda>tr i. ([], Some ''database is locked'')),
       select_schedule = (\<lambda>tr. [RecvResult 0, RecvResult 0]),
       ddg_Search =
         (\<lambda>tr q m.
            ([demoEvidence ''DuckDuckGo'' ''http://a.example/x'' ''opened in 1932''], None)),
       pubmed_Search = (\<lambda>tr q m. ([demoEvidence ''PubMed'' ''http://a.example/x'' []], None)) \<rparr>"

definition demoEngine :: Engine where
  "demoEngine = NewEngine \<lparr> DuckDuckGo = True, PubMed = True \<rparr> [] demoEnv"

definition demoAirGapped :: Engine where
  "demoAirGapped = NewEngine \<lparr> DuckDuckGo = False, PubMed = False \<rparr> [] demoEnv"

definition demoEnvTimeout :: Env where
  "demoEnvTimeout = demoEnv \<lparr> select_schedule := (\<lambda>tr. [RecvTimeout, RecvResult 0]) \<rparr>"

definition demoEnvStuck :: Env where
  "demoEnvStuck = demoEnv \<lparr> select_schedule := (\<lambda>tr. [RecvTimeout]) \<rparr>"

definition demoSearch :: "((Evidence list \<times> Warning list) \<times> trace) option" where
  "demoSearch = Search (searchClient demoEngine) demoEnv [] ''The bridge opened in 1932'' 6"

definition demoSearchTimeout :: "((Evidence list \<times> Warning list) \<times> trace) option" where
  "demoSearchTimeout =
     Search (searchClient demoEngine) demoEnvTimeout [] ''The bridge opened in 1932'' 6"

definition demoSearchStuck :: "((Evidence list \<times> Warning list) \<times> trace) option" where
  "demoSearchStuck =
     Search (searchClient demoEngine) demoEnvStuck [] ''The bridge opened in 1932'' 6"

definition demoEmptyRun :: "((string + VerificationResponse) \<times> trace) option" where
  "demoEmptyRun = VerifyText demoEngine demoEnv [] ''No facts here.''"

text \<open>
  A store that answers from what was saved earlier in the trace (the latest analysis
  with the hash, the claims saved under the analysis id), for runs that follow one
  another on the same database; and a store whose claim lookup is interrupted after the
  first row, so that it returns one claim of three together with an error.
\<close>

fun savedAnalysis :: "trace \<Rightarrow> string \<Rightarrow> AnalysisResult option" where
  "savedAnalysis [] h = None"
| "savedAnalysis (SaveAnalysis a # tr) h =
     (if a_DocumentHash a = h then Some a else savedAnalysis tr h)"
| "savedAnalysis (ev # tr) h = savedAnalysis tr h"

fun savedClaims :: "trace \<Rightarrow> string \<Rightarrow> Claim list" where
  "savedClaims [] i = []"
| "savedClaims (SaveClaims j cs # tr) i = (if j = i then cs else savedClaims tr i)"
| "savedClaims (ev # tr) i = savedClaims tr i"

definition demoEnvPersist :: Env where
  "demoEnvPersist =
     demoEnv \<lparr> store_GetAnalysisByHash := (\<lambda>tr h. (savedAnalysis tr h, None)),
               store_GetClaimsByAnalysis := (\<lambda>tr i. (savedClaims tr i, None)) \<rparr>"

definition demoFirstRun :: "((string + VerificationResponse) \<times> trace) option" where
  "demoFirstRun = VerifyText demoEngine demoEnvPersist [] ''The bridge is old''"

definition demoSecondRun :: "((string + VerificationResponse) \<times> trace) option" where
  "demoSecondRun =
     VerifyText demoAirGapped demoEnvPersist (snd (the demoFirstRun)) ''The bridge is old''"

definition demoVerifiedClaim :: Claim where
  "demoVerifiedClaim =
     demoClaim \<lparr> c_Status := StatusVerified, c_Confidence := 9 / 10,
                 c_SourceType := SourceTypeEvidenceBacked, c_Reasoning := ''ok'' \<rparr>"

definition demoEnvPartial :: Env where
  "demoEnvPartial =
     demoEnv \<lparr> store_GetClaimsByAnalysis :=
                 (\<lambda>tr i. ([demoVerifiedClaim], Some ''context canceled'')) \<rparr>"

definition demoPartialRun :: "((string + VerificationResponse) \<times> trace) option" where
  "demoPartialRun = VerifyText demoEngine demoEnvPartial [] ''cached text''"

section \<open>Claim verifier: empty evidence\<close>

text \<open>
  C5, as the spec states it: with an empty evidence list \<open>Verify\<close> returns the status
  unsupported, confidence 0 and the reasoning "No evidence found". The code's reasoning
  text is longer, so the triple as stated is not what is returned.
\<close>

theorem C5_counterexample:
  "fst (Verify demoEnv [] demoClaim []) \<noteq> (StatusUnsupported, 0, ''No evidence found'', None)"
  by (simp add: Verify_def)

text \<open>
  C5, amended: for every claim, \<open>Verify\<close> on the empty evidence list returns status
  unsupported, confidence 0, the reasoning "No evidence found to support this claim" and
  no error, and leaves the trace as it was: no language-model call is made.
\<close>

theorem C5_Verify_empty:
  "Verify env tr claim [] =
     ((StatusUnsupported, 0, ''No evidence found to support this claim'', None), tr)"
  by (simp add: Verify_def)

section \<open>Claim extractor: claim types\<close>

lemma buildClaims_types: "map c_Type (fst (buildClaims env tr ecs)) = map ec_Type ecs"
  by (induction ecs arbitrary: tr) (simp_all add: Let_def case_prod_beta)

lemma buildClaims_length: "length (fst (buildClaims env tr ecs)) = length ecs"
  by (induction ecs arbitrary: tr) (simp_all add: Let_def case_prod_beta)

text \<open>
  C10: whenever the model answers and its answer decodes to an extraction result,
  \<open>Extract\<close> succeeds and the types of the claims it returns are the decoded type strings,
  one for one and unchanged, whether or not they belong to the taxonomy.
\<close>

theorem C10_Extract_types_verbatim:
  assumes "CompleteWithSystem env tr (ExtractPrompt (customClaimTypes ex) text) 4096 = Inr response"
    and "extractor_decode env response = Inr result"
  shows "\<exists>claims tr'. Extract ex env tr text = (Inr claims, tr')
           \<and> map c_Type claims = map ec_Type (er_Claims result)"
proof -
  let ?tr1 = "LLMCall (ExtractPrompt (customClaimTypes ex) text) 4096 # tr"
  obtain cs tr2 where b: "buildClaims env ?tr1 (er_Claims result) = (cs, tr2)"
    by (cases "buildClaims env ?tr1 (er_Claims result)")
  have "map c_Type cs = map ec_Type (er_Claims result)"
    using buildClaims_types[of env ?tr1 "er_Claims result"] b by simp
  moreover have "Extract ex env tr text = (Inr cs, tr2)"
    using assms b by (simp add: Extract_def extractor_parseResponse_def Let_def)
  ultimately show ?thesis by blast
qed

theorem C10_witness:
  "(\<exists>claims tr'. Extract \<lparr> customClaimTypes = [] \<rparr> demoEnv [] ''The bridge is old'' = (Inr claims, tr')
      \<and> map c_Type claims = [''opinion'', ''temporal''])
   \<and> ''opinion'' \<notin> ClaimTypes"
proof -
  have a: "CompleteWithSystem demoEnv []
             (ExtractPrompt (customClaimTypes \<lparr> customClaimTypes = [] \<rparr>) ''The bridge is old'') 4096
           = Inr ''E''"
    by (simp add: demoEnv_def)
  have b: "extractor_decode demoEnv ''E'' = Inr demoExtraction"
    by (simp add: extractor_decode_def stripFence_def HasPrefix_def demoEnv_def)
  have c: "map ec_Type (er_Claims demoExtraction) = [''opinion'', ''temporal'']"
    by (simp add: demoExtraction_def)
  have d: "''opinion'' \<notin> ClaimTypes"
    by (simp add: ClaimTypes_def)
  show ?thesis
    using C10_Extract_types_verbatim[OF a b] c d by simp
qed

section \<open>Admission control: at most five claims in flight\<close>


lemma inflight_admit:
  "i < length xs \<Longrightarrow> xs ! i = Waiting \<Longrightarrow>
   length (filter (\<lambda>t. t = InFlight) (xs[i := InFlight])) = Suc (length (filter (\<lambda>t. t = InFlight) xs))"
proof (induction xs arbitrary: i)
  case Nil
  then show ?case by simp
next
  case (Cons x xs)
  then show ?case by (cases i) auto
qed

lemma inflight_release:
  "i < length xs \<Longrightarrow> xs ! i = InFlight \<Longrightarrow>
   Suc (length (filter (\<lambda>t. t = InFlight) (xs[i := Finished]))) = length (filter (\<lambda>t. t = InFlight) xs)"
proof (induction xs arbitrary: i)
  case Nil
  then show ?case by simp
next
  case (Cons x xs)
  then show ?case by (cases i) auto
qed

lemma sem_step_inv:
  assumes "inFlight s = semaphore s" and "semaphore s \<le> semaphore_cap"
  shows "inFlight (sem_step s idx) = semaphore (sem_step s idx) \<and> semaphore (sem_step s idx) \<le> semaphore_cap"
proof (cases "idx < length (tasks s)")
  case False
  then show ?thesis using assms by (simp add: sem_step_def)
next
  case True
  show ?thesis
  proof (cases "tasks s ! idx")
    case Waiting
    then show ?thesis
      using assms True inflight_admit[of idx "tasks s"]
      by (simp add: sem_step_def inFlight_def)
  next
    case InFlight
    then show ?thesis
      using assms True inflight_release[of idx "tasks s"]
      by (auto simp add: sem_step_def inFlight_def)
  next
    case Finished
    then show ?thesis using assms True by (simp add: sem_step_def)
  qed
qed

lemma sem_foldl_inv:
  "inFlight s = semaphore s \<Longrightarrow> semaphore s \<le> semaphore_cap \<Longrightarrow>
   inFlight (foldl sem_step s sched) = semaphore (foldl sem_step s sched)
   \<and> semaphore (foldl sem_step s sched) \<le> semaphore_cap"
proof (induction sched arbitrary: s)
  case Nil
  then show ?case by simp
next
  case (Cons i sched)
  then show ?case using sem_step_inv[of s i] by simp
qed

text \<open>
  C8: whatever the number of claims and however the scheduler interleaves the
  goroutines, the number of goroutines between their send to the semaphore and their
  deferred receive, that is the number of claims whose verification is executing, is at
  most 5 in every state the run reaches.
\<close>

theorem C8_at_most_five_in_flight: "inFlight (sem_run n sched) \<le> 5"
proof -
  have "inFlight (sem_init n) = semaphore (sem_init n)"
    by (simp add: sem_init_def inFlight_def)
  moreover have "semaphore (sem_init n) \<le> semaphore_cap"
    by (simp add: sem_init_def)
  ultimately show ?thesis
    using sem_foldl_inv[of "sem_init n" sched] by (simp add: sem_run_def semaphore_cap_def)
qed

section \<open>Counting and scoring\<close>

lemma status_distinct:
  "StatusVerified \<noteq> StatusMixed" "StatusVerified \<noteq> StatusUnsupported"
  "StatusMixed \<noteq> StatusUnsupported"
  by (simp_all add: StatusVerified_def StatusMixed_def StatusUnsupported_def)

lemma tally_counts:
  "tally cs (v, m, u) =
     (v + length (filter (\<lambda>c. c_Status c = StatusVerified) cs),
      m + length (filter (\<lambda>c. c_Status c = StatusMixed) cs),
      u + length (filter (\<lambda>c. c_Status c = StatusUnsupported) cs))"
  using status_distinct by (induction cs arbitrary: v m u) auto

lemma three_way_count:
  "\<forall>c\<in>set cs. P c \<or> Q c \<or> R c \<Longrightarrow> \<forall>c. \<not> (P c \<and> Q c) \<Longrightarrow> \<forall>c. \<not> (P c \<and> R c) \<Longrightarrow> \<forall>c. \<not> (Q c \<and> R c) \<Longrightarrow>
   length (filter P cs) + length (filter Q cs) + length (filter R cs) = length cs"
  by (induction cs) auto

lemma settled_counts:
  assumes "\<forall>c\<in>set cs. settled c"
  shows "length (filter (\<lambda>c. c_Status c = StatusVerified) cs)
       + length (filter (\<lambda>c. c_Status c = StatusMixed) cs)
       + length (filter (\<lambda>c. c_Status c = StatusUnsupported) cs) = length cs"
  using assms status_distinct unfolding settled_def
  by (intro three_way_count) auto

lemma statusOf_settled:
  "statusOf s = StatusVerified \<or> statusOf s = StatusMixed \<or> statusOf s = StatusUnsupported"
  by (simp add: statusOf_def)

lemma Verify_settled:
  "Verify env tr c evs = ((st, cf, rs, er), tr') \<Longrightarrow>
   st = StatusVerified \<or> st = StatusMixed \<or> st = StatusUnsupported"
  using statusOf_settled
  by (auto simp: Verify_def Let_def split: if_splits sum.splits)

lemma VerifyWithoutEvidence_settled:
  "VerifyWithoutEvidence env tr c = ((st, cf, rs, er), tr') \<Longrightarrow>
   st = StatusVerified \<or> st = StatusMixed \<or> st = StatusUnsupported"
  using statusOf_settled
  by (auto simp: VerifyWithoutEvidence_def Let_def split: if_splits sum.splits)

lemma settle_settled:
  "st = StatusVerified \<or> st = StatusMixed \<or> st = StatusUnsupported \<Longrightarrow>
   settled (settle env tr c src (st, cf, rs, er) msg evs)"
  by (auto simp: settle_def settled_def split: option.splits)

lemma verifyOne_settled:
  assumes "verifyOne e env tr c = Some ((c', ws), tr')"
  shows "settled c'"
proof (cases "airGapped e")
  case True
  obtain st cf rs er tr1 where v: "VerifyWithoutEvidence env tr c = ((st, cf, rs, er), tr1)"
    by (metis prod_cases4 surj_pair)
  then show ?thesis
    using assms True VerifyWithoutEvidence_settled[OF v] settle_settled
    by (auto simp: verifyOne_def)
next
  case False
  then obtain sr sw tr1 where s: "Search (searchClient e) env tr (c_Text c) 6 = Some ((sr, sw), tr1)"
    using assms by (auto simp: verifyOne_def split: option.splits)
  show ?thesis
  proof (cases "length sr = 0")
    case True
    obtain st cf rs er tr2 where v: "VerifyWithoutEvidence env tr1 c = ((st, cf, rs, er), tr2)"
      by (metis prod_cases4 surj_pair)
    then show ?thesis
      using assms False s True VerifyWithoutEvidence_settled[OF v] settle_settled
      by (auto simp: verifyOne_def)
  next
    case nonempty: False
    obtain st cf rs er tr2 where v: "Verify env tr1 c sr = ((st, cf, rs, er), tr2)"
      by (metis prod_cases4 surj_pair)
    then show ?thesis
      using assms False s nonempty Verify_settled[OF v] settle_settled
      by (auto simp: verifyOne_def)
  qed
qed

lemma verifyClaims_settled:
  "verifyClaims e env tr cs = Some ((cs', ws), tr') \<Longrightarrow>
   length cs' = length cs \<and> (\<forall>c\<in>set cs'. settled c)"
proof (induction cs arbitrary: tr cs' ws tr')
  case Nil
  then show ?case by simp
next
  case (Cons c cs)
  from Cons.prems obtain c1 w1 tr1 rest w2 where
    one: "verifyOne e env tr c = Some ((c1, w1), tr1)" and
    more: "verifyClaims e env tr1 cs = Some ((rest, w2), tr')" and
    eq: "cs' = c1 # rest"
    by (auto split: option.splits)
  show ?case
    using Cons.IH[OF more] verifyOne_settled[OF one] eq by simp
qed

lemma half_weight_double:
  fixes v m :: nat
  shows "2 * (of_nat v + of_nat m * (1 / 2) :: rat) = of_nat (2 * v + m)"
  by simp

lemma times_ten:
  fixes a :: rat
  shows "a \<le> 1 \<Longrightarrow> a * 10 \<le> 10" and "a * 10 = 10 \<longleftrightarrow> a = 1" and "a * 10 = 0 \<longleftrightarrow> a = 0"
  by auto

lemma score_range:
  fixes v m u n :: nat
  assumes "v + m + u = n" "n > 0"
  shows "0 \<le> ((of_nat v + of_nat m * (1 / 2)) / of_nat n) * (10::rat)"
    and "((of_nat v + of_nat m * (1 / 2)) / of_nat n) * (10::rat) \<le> 10"
proof -
  define x :: rat where "x = of_nat v + of_nat m * (1 / 2)"
  show "0 \<le> ((of_nat v + of_nat m * (1 / 2)) / of_nat n) * (10::rat)" by simp
  have "v + m \<le> n" using assms(1) by arith
  then have le: "(of_nat (v + m) :: rat) \<le> of_nat n" by (simp only: of_nat_le_iff)
  have "x \<le> of_nat v + of_nat m" by (simp add: x_def)
  also have "\<dots> = of_nat (v + m)" by simp
  finally have "x \<le> of_nat n" using le by simp
  then have "x / (of_nat n :: rat) \<le> 1"
    using assms(2) by (simp add: divide_le_eq)
  then have "(x / of_nat n) * 10 \<le> 10" by (rule times_ten(1))
  then show "((of_nat v + of_nat m * (1 / 2)) / of_nat n) * (10::rat) \<le> 10"
    unfolding x_def .
qed

lemma score_ten_iff:
  fixes v m u n :: nat
  assumes "v + m + u = n" "n > 0"
  shows "((of_nat v + of_nat m * (1 / 2)) / of_nat n) * (10::rat) = 10 \<longleftrightarrow> v = n"
proof -
  define x :: rat where "x = of_nat v + of_nat m * (1 / 2)"
  have n0: "(of_nat n :: rat) \<noteq> 0" using assms(2) by simp
  have "(x / of_nat n) * 10 = 10 \<longleftrightarrow> x / of_nat n = 1" by (rule times_ten(2))
  also have "\<dots> \<longleftrightarrow> x = of_nat n" using n0 by (simp add: divide_eq_eq)
  also have "\<dots> \<longleftrightarrow> 2 * x = 2 * of_nat n" by simp
  also have "\<dots> \<longleftrightarrow> (of_nat (2 * v + m) :: rat) = of_nat (2 * n)"
    by (simp add: x_def)
  also have "\<dots> \<longleftrightarrow> 2 * v + m = 2 * n" by (simp only: of_nat_eq_iff)
  also have "\<dots> \<longleftrightarrow> v = n" using assms(1) by arith
  finally show ?thesis unfolding x_def .
qed

lemma score_zero_iff:
  fixes v m u n :: nat
  assumes "v + m + u = n" "n > 0"
  shows "((of_nat v + of_nat m * (1 / 2)) / of_nat n) * (10::rat) = 0 \<longleftrightarrow> u = n"
proof -
  define x :: rat where "x = of_nat v + of_nat m * (1 / 2)"
  have n0: "(of_nat n :: rat) \<noteq> 0" using assms(2) by simp
  have "(x / of_nat n) * 10 = 0 \<longleftrightarrow> x / of_nat n = 0" by (rule times_ten(3))
  also have "\<dots> \<longleftrightarrow> x = 0" using n0 by simp
  also have "\<dots> \<longleftrightarrow> 2 * x = 0" by simp
  also have "\<dots> \<longleftrightarrow> (of_nat (2 * v + m) :: rat) = of_nat 0"
    by (simp add: x_def)
  also have "\<dots> \<longleftrightarrow> 2 * v + m = 0" by (simp only: of_nat_eq_iff)
  also have "\<dots> \<longleftrightarrow> u = n" using assms(1) by arith
  finally show ?thesis unfolding x_def .
qed

lemma count_all_iff: "length (filter P xs) = length xs \<longleftrightarrow> (\<forall>x\<in>set xs. P x)"
proof (induction xs)
  case Nil
  then show ?case by simp
next
  case (Cons x xs)
  have "length (filter P xs) \<le> length xs" by simp
  then have ne: "length (filter P xs) \<noteq> Suc (length xs)" by arith
  show ?case
  proof (cases "P x")
    case True
    then show ?thesis using Cons by simp
  next
    case False
    then show ?thesis using ne by simp
  qed
qed

lemma calculateAnalysis_fields:
  assumes "calculateAnalysis env tr h cs d = (a, tr')"
  shows "a_TotalClaims a = length cs"
    and "a_VerifiedClaims a = length (filter (\<lambda>c. c_Status c = StatusVerified) cs)"
    and "a_MixedClaims a = length (filter (\<lambda>c. c_Status c = StatusMixed) cs)"
    and "a_UnsupportedClaims a = length (filter (\<lambda>c. c_Status c = StatusUnsupported) cs)"
    and "a_OverallScore a =
           (if length cs > 0 then
              ((of_nat (a_VerifiedClaims a) + of_nat (a_MixedClaims a) * (1 / 2))
                 / of_nat (length cs)) * 10
            else 0)"
  using assms tally_counts[of cs 0 0 0]
  by (auto simp: calculateAnalysis_def Let_def)

lemma runPipeline_shape:
  assumes "runPipeline e env tr text h st = Some (Inr resp, tr')"
  shows "\<exists>claims0 tr1 tr2 d.
           Extract (extractor e) env tr text = (Inr claims0, tr1)
         \<and> length (r_Claims resp) = length claims0
         \<and> (\<forall>c\<in>set (r_Claims resp). settled c)
         \<and> calculateAnalysis env tr2 h (r_Claims resp) d = (r_Analysis resp, NewUUID # tr2)"
proof -
  obtain x tr1 where ex: "Extract (extractor e) env tr text = (x, tr1)"
    by (cases "Extract (extractor e) env tr text")
  with assms obtain claims0 where x: "x = Inr claims0"
    by (cases x) (auto simp: runPipeline_def)
  from assms ex x obtain cs ws tr2 where
    vc: "verifyClaims e env tr1 claims0 = Some ((cs, ws), tr2)"
    by (auto simp: runPipeline_def split: option.splits)
  obtain a tr3 where ca: "calculateAnalysis env tr2 h cs (int (time_Now env tr2) - int st) = (a, tr3)"
    by (cases "calculateAnalysis env tr2 h cs (int (time_Now env tr2) - int st)")
  have tr3: "tr3 = NewUUID # tr2"
    using ca by (auto simp: calculateAnalysis_def Let_def split: prod.splits)
  have resp: "r_Claims resp = cs" "r_Analysis resp = a"
    using assms ex x vc ca by (auto simp: runPipeline_def)
  show ?thesis
    using ex x verifyClaims_settled[OF vc] ca resp tr3 by auto
qed

lemma VerifyText_miss:
  "cached env tr text = None \<Longrightarrow>
   VerifyText e env tr text =
     runPipeline e env (GetAnalysisByHash (sha256_hex env text) # tr) text (sha256_hex env text)
       (time_Now env tr)"
  by (simp add: VerifyText_def cached_def Let_def)

text \<open>
  C2: for every run that is not answered from the store and that completes with a
  response, the three counters of the analysis add up to \<open>totalClaims\<close>,
  \<open>totalClaims\<close> is the number of claims the extractor returned, and the overall score
  lies between 0 and 10.
\<close>

theorem C2_counts_and_score_range:
  assumes miss: "cached env tr text = None"
    and run: "VerifyText e env tr text = Some (Inr resp, tr')"
  shows "a_VerifiedClaims (r_Analysis resp) + a_MixedClaims (r_Analysis resp)
           + a_UnsupportedClaims (r_Analysis resp) = a_TotalClaims (r_Analysis resp)
       \<and> (\<exists>claims0 tr1.
             Extract (extractor e) env (GetAnalysisByHash (sha256_hex env text) # tr) text
               = (Inr claims0, tr1)
             \<and> a_TotalClaims (r_Analysis resp) = length claims0)
       \<and> 0 \<le> a_OverallScore (r_Analysis resp)
       \<and> a_OverallScore (r_Analysis resp) \<le> 10"
proof -
  let ?a = "r_Analysis resp" and ?cs = "r_Claims resp"
  from run VerifyText_miss[OF miss] obtain claims0 tr1 tr2 d where
    ex: "Extract (extractor e) env (GetAnalysisByHash (sha256_hex env text) # tr) text
           = (Inr claims0, tr1)" and
    len: "length ?cs = length claims0" and
    st: "\<forall>c\<in>set ?cs. settled c" and
    ca: "calculateAnalysis env tr2 (sha256_hex env text) ?cs d = (?a, NewUUID # tr2)"
    using runPipeline_shape by metis
  note f = calculateAnalysis_fields[OF ca]
  have sum: "a_VerifiedClaims ?a + a_MixedClaims ?a + a_UnsupportedClaims ?a = length ?cs"
    using settled_counts[OF st] f(2,3,4) by simp
  have range: "0 \<le> a_OverallScore ?a \<and> a_OverallScore ?a \<le> 10"
  proof (cases "length ?cs > 0")
    case True
    then show ?thesis using score_range[OF sum True] f(5) by simp
  next
    case False
    then show ?thesis using f(5) by simp
  qed
  show ?thesis using sum f(1) ex len range by auto
qed

text \<open>
  C4, amended: for every run that is not answered from the store and that completes, the
  overall score is \<open>((verified + 0.5 * mixed) / totalClaims) * 10\<close>, computed in this
  order, and 0 when there are no claims; when such a run has at least one claim, the
  score is 10 exactly when every claim is verified and 0 exactly when every claim is
  unsupported.
\<close>

theorem C4_score_extremes:
  assumes miss: "cached env tr text = None"
    and run: "VerifyText e env tr text = Some (Inr resp, tr')"
  shows "a_OverallScore (r_Analysis resp) =
           (if a_TotalClaims (r_Analysis resp) = 0 then 0
            else ((of_nat (a_VerifiedClaims (r_Analysis resp))
                     + of_nat (a_MixedClaims (r_Analysis resp)) * (1 / 2))
                  / of_nat (a_TotalClaims (r_Analysis resp))) * 10)
       \<and> (r_Claims resp \<noteq> [] \<longrightarrow>
            (a_OverallScore (r_Analysis resp) = 10
               \<longleftrightarrow> (\<forall>c\<in>set (r_Claims resp). c_Status c = StatusVerified))
          \<and> (a_OverallScore (r_Analysis resp) = 0
               \<longleftrightarrow> (\<forall>c\<in>set (r_Claims resp). c_Status c = StatusUnsupported)))"
proof -
  let ?a = "r_Analysis resp" and ?cs = "r_Claims resp"
  from run VerifyText_miss[OF miss] obtain claims0 tr1 tr2 d where
    st: "\<forall>c\<in>set ?cs. settled c" and
    ca: "calculateAnalysis env tr2 (sha256_hex env text) ?cs d = (?a, NewUUID # tr2)"
    using runPipeline_shape by metis
  note f = calculateAnalysis_fields[OF ca]
  have sum: "a_VerifiedClaims ?a + a_MixedClaims ?a + a_UnsupportedClaims ?a = length ?cs"
    using settled_counts[OF st] f(2,3,4) by simp
  have formula: "a_OverallScore ?a =
           (if a_TotalClaims ?a = 0 then 0
            else ((of_nat (a_VerifiedClaims ?a) + of_nat (a_MixedClaims ?a) * (1 / 2))
                  / of_nat (a_TotalClaims ?a)) * 10)"
    using f(1,5) by simp
  have iffs: "(a_OverallScore ?a = 10 \<longleftrightarrow> (\<forall>c\<in>set ?cs. c_Status c = StatusVerified))
          \<and> (a_OverallScore ?a = 0 \<longleftrightarrow> (\<forall>c\<in>set ?cs. c_Status c = StatusUnsupported))"
    if ne: "?cs \<noteq> []"
  proof -
    have pos: "length ?cs > 0" using ne by simp
    have sc: "a_OverallScore ?a =
        ((of_nat (a_VerifiedClaims ?a) + of_nat (a_MixedClaims ?a) * (1 / 2)) / of_nat (length ?cs)) * 10"
      using f(5) pos by simp
    have "a_OverallScore ?a = 10 \<longleftrightarrow> a_VerifiedClaims ?a = length ?cs"
      using score_ten_iff[OF sum pos] sc by simp
    moreover have "a_OverallScore ?a = 0 \<longleftrightarrow> a_UnsupportedClaims ?a = length ?cs"
      using score_zero_iff[OF sum pos] sc by simp
    ultimately show ?thesis
      using f(2,4) count_all_iff[of "\<lambda>c. c_Status c = StatusVerified" ?cs]
        count_all_iff[of "\<lambda>c. c_Status c = StatusUnsupported" ?cs]
      by simp
  qed
  show ?thesis using formula iffs by blast
qed

lemmas run_defs = VerifyText_def runPipeline_def Extract_def extractor_parseResponse_def
  extractor_decode_def stripFence_def HasPrefix_def verifyOne_def Search_def NewEngine_def
  NewAggregatedSearchClient_def HasClients_def NewDuckDuckGoClient_def NewPubMedClient_def
  Verify_def VerifyWithoutEvidence_def verifier_parseResponse_def statusOf_def settle_def
  calculateAnalysis_def DefaultMaxTokens_def Let_def
  StatusVerified_def StatusMixed_def StatusUnsupported_def StatusPending_def
  SourceTypeEvidenceBacked_def SourceTypeModelBased_def

lemmas demo_defs = demoEnv_def demoEngine_def demoAirGapped_def demoExtraction_def
  demoEvidence_def demoAnalysis_def demoEnvTimeout_def

section \<open>Cache hits and air-gapped runs\<close>

lemma VerifyText_hit:
  assumes "cached env tr text = Some existing"
  shows "VerifyText e env tr text =
     Some (Inr \<lparr> r_ID = a_ID existing,
                 r_DocumentHash = sha256_hex env text,
                 r_Analysis = existing,
                 r_Claims = fst (store_GetClaimsByAnalysis env
                                   (GetAnalysisByHash (sha256_hex env text) # tr) (a_ID existing)),
                 r_Warnings = [] \<rparr>,
           GetClaimsByAnalysis (a_ID existing) # GetAnalysisByHash (sha256_hex env text) # tr)"
  using assms by (simp add: VerifyText_def cached_def Let_def)

lemma buildClaims_trace: "buildClaims env tr ecs = (cs, tr') \<Longrightarrow> set tr \<subseteq> set tr'"
proof (induction ecs arbitrary: tr cs tr')
  case Nil
  then show ?case by simp
next
  case (Cons ec ecs)
  obtain cs1 tr1 where r: "buildClaims env (NewUUID # tr) ecs = (cs1, tr1)"
    by (cases "buildClaims env (NewUUID # tr) ecs")
  with Cons.prems have "tr' = tr1" by (simp add: Let_def)
  with Cons.IH[OF r] show ?case by auto
qed

lemma Extract_trace:
  assumes "Extract ex env tr text = (r, tr')"
  shows "LLMCall (ExtractPrompt (customClaimTypes ex) text) 4096 \<in> set tr'"
proof -
  let ?tr1 = "LLMCall (ExtractPrompt (customClaimTypes ex) text) 4096 # tr"
  show ?thesis
  proof (cases "CompleteWithSystem env tr (ExtractPrompt (customClaimTypes ex) text) 4096")
    case (Inl err)
    with assms show ?thesis by (auto simp: Extract_def Let_def)
  next
    case (Inr response)
    show ?thesis
    proof (cases "extractor_decode env response")
      case (Inl err)
      with assms Inr show ?thesis
        by (auto simp: Extract_def extractor_parseResponse_def Let_def)
    next
      case decoded: (Inr result)
      obtain cs tr2 where b: "buildClaims env ?tr1 (er_Claims result) = (cs, tr2)"
        by (cases "buildClaims env ?tr1 (er_Claims result)")
      with assms Inr decoded have "tr' = tr2"
        by (simp add: Extract_def extractor_parseResponse_def Let_def)
      with buildClaims_trace[OF b] show ?thesis by auto
    qed
  qed
qed

lemma Verify_trace: "Verify env tr c evs = (v, tr') \<Longrightarrow> set tr \<subseteq> set tr'"
  by (auto simp: Verify_def Let_def split: if_splits sum.splits)

lemma VerifyWithoutEvidence_trace: "VerifyWithoutEvidence env tr c = (v, tr') \<Longrightarrow> set tr \<subseteq> set tr'"
  by (auto simp: VerifyWithoutEvidence_def Let_def split: if_splits sum.splits)

lemma launch_trace: "launch tr q n cs = (rs, tr') \<Longrightarrow> set tr \<subseteq> set tr'"
proof (induction cs arbitrary: tr rs tr')
  case Nil
  then show ?case by simp
next
  case (Cons c cs)
  obtain rs1 tr1 where r: "launch (SourceSearch (sc_Name c) q n # tr) q n cs = (rs1, tr1)"
    by (cases "launch (SourceSearch (sc_Name c) q n # tr) q n cs")
  with Cons.prems have "tr' = tr1" by (simp add: Let_def split: prod.splits)
  with Cons.IH[OF r] show ?case by auto
qed

lemma Search_trace: "Search a env tr q n = Some (r, tr') \<Longrightarrow> set tr \<subseteq> set tr'"
proof -
  assume s: "Search a env tr q n = Some (r, tr')"
  obtain rs tr1 where l: "launch tr q n (clients a) = (rs, tr1)"
    by (cases "launch tr q n (clients a)")
  from s l have "tr' = tr \<or> tr' = tr1"
    by (auto simp: Search_def split: if_splits option.splits)
  with launch_trace[OF l] show ?thesis by auto
qed

lemma verifyOne_trace:
  assumes "verifyOne e env tr c = Some (r, tr')"
  shows "set tr \<subseteq> set tr'"
proof (cases "airGapped e")
  case True
  obtain v tr1 where v: "VerifyWithoutEvidence env tr c = (v, tr1)"
    by (cases "VerifyWithoutEvidence env tr c")
  with assms True have "tr' = tr1" by (simp add: verifyOne_def)
  with VerifyWithoutEvidence_trace[OF v] show ?thesis by simp
next
  case False
  with assms obtain sr sw tr1 where s: "Search (searchClient e) env tr (c_Text c) 6 = Some ((sr, sw), tr1)"
    by (auto simp: verifyOne_def split: option.splits)
  note t1 = Search_trace[OF s]
  show ?thesis
  proof (cases "length sr = 0")
    case True
    obtain v tr2 where v: "VerifyWithoutEvidence env tr1 c = (v, tr2)"
      by (cases "VerifyWithoutEvidence env tr1 c")
    with assms False s True have "tr' = tr2" by (simp add: verifyOne_def)
    with VerifyWithoutEvidence_trace[OF v] t1 show ?thesis by auto
  next
    case nonempty: False
    obtain v tr2 where v: "Verify env tr1 c sr = (v, tr2)"
      by (cases "Verify env tr1 c sr")
    with assms False s nonempty have "tr' = tr2" by (simp add: verifyOne_def)
    with Verify_trace[OF v] t1 show ?thesis by auto
  qed
qed

lemma verifyClaims_trace: "verifyClaims e env tr cs = Some (r, tr') \<Longrightarrow> set tr \<subseteq> set tr'"
proof (induction cs arbitrary: tr r tr')
  case Nil
  then show ?case by simp
next
  case (Cons c cs)
  from Cons.prems obtain r1 tr1 r2 where
    one: "verifyOne e env tr c = Some (r1, tr1)" and
    more: "verifyClaims e env tr1 cs = Some (r2, tr')"
    by (auto split: option.splits)
  from verifyOne_trace[OF one] Cons.IH[OF more] show ?case by auto
qed

lemma runPipeline_extracts:
  assumes "runPipeline e env tr text h st = Some (r, tr')"
  shows "LLMCall (ExtractPrompt (customClaimTypes (extractor e)) text) 4096 \<in> set tr'"
proof -
  obtain x tr1 where ex: "Extract (extractor e) env tr text = (x, tr1)"
    by (cases "Extract (extractor e) env tr text")
  note in1 = Extract_trace[OF ex]
  show ?thesis
  proof (cases x)
    case (Inl err)
    with assms ex have "tr' = tr1" by (simp add: runPipeline_def)
    with in1 show ?thesis by simp
  next
    case (Inr claims0)
    with assms ex obtain cs ws tr2 where
      vc: "verifyClaims e env tr1 claims0 = Some ((cs, ws), tr2)"
      by (auto simp: runPipeline_def split: option.splits)
    have "set tr2 \<subseteq> set tr'"
      using assms ex Inr vc
      by (auto simp: runPipeline_def calculateAnalysis_def Let_def split: prod.splits)
    with verifyClaims_trace[OF vc] in1 show ?thesis by auto
  qed
qed

text \<open>
  C3: when the store holds an analysis for the hash of the text, \<open>VerifyText\<close> returns a
  response with that analysis and its id, and the only effects are the two store reads:
  no language-model call and no search call is made. When the lookup itself fails
  (no analysis, an error), \<open>VerifyText\<close> does not fail: it is the full pipeline run on
  the text, and whenever it returns, the extraction call has been made.
\<close>

theorem C3_cache_hit_no_work:
  "(cached env tr text = Some existing \<longrightarrow>
      (\<exists>resp tr'. VerifyText e env tr text = Some (Inr resp, tr')
         \<and> r_ID resp = a_ID existing \<and> r_Analysis resp = existing
         \<and> tr' = GetClaimsByAnalysis (a_ID existing) # GetAnalysisByHash (sha256_hex env text) # tr
         \<and> llmCalls tr' = llmCalls tr \<and> searchCalls tr' = searchCalls tr))
   \<and> (store_GetAnalysisByHash env tr (sha256_hex env text) = (None, Some err) \<longrightarrow>
        VerifyText e env tr text =
          runPipeline e env (GetAnalysisByHash (sha256_hex env text) # tr) text
            (sha256_hex env text) (time_Now env tr)
        \<and> (\<forall>r tr'. VerifyText e env tr text = Some (r, tr') \<longrightarrow>
               LLMCall (ExtractPrompt (customClaimTypes (extractor e)) text) 4096 \<in> set tr'))"
proof (intro conjI impI)
  assume hit: "cached env tr text = Some existing"
  show "\<exists>resp tr'. VerifyText e env tr text = Some (Inr resp, tr')
         \<and> r_ID resp = a_ID existing \<and> r_Analysis resp = existing
         \<and> tr' = GetClaimsByAnalysis (a_ID existing) # GetAnalysisByHash (sha256_hex env text) # tr
         \<and> llmCalls tr' = llmCalls tr \<and> searchCalls tr' = searchCalls tr"
    using VerifyText_hit[OF hit, of e] by (simp add: llmCalls_def searchCalls_def)
next
  assume "store_GetAnalysisByHash env tr (sha256_hex env text) = (None, Some err)"
  then have miss: "cached env tr text = None" by (simp add: cached_def)
  then show full: "VerifyText e env tr text =
          runPipeline e env (GetAnalysisByHash (sha256_hex env text) # tr) text
            (sha256_hex env text) (time_Now env tr)"
    by (rule VerifyText_miss)
  show "\<forall>r tr'. VerifyText e env tr text = Some (r, tr') \<longrightarrow>
               LLMCall (ExtractPrompt (customClaimTypes (extractor e)) text) 4096 \<in> set tr'"
    using runPipeline_extracts unfolding full by blast
qed

text \<open>
  C9: on a cache hit the response has no warnings, and its claims are the list that the
  store's claim lookup returned, whether or not the lookup also returned an error and
  whatever \<open>totalClaims\<close> the cached analysis records (so the list may be empty while
  \<open>totalClaims\<close> is positive).
\<close>

theorem C9_cache_hit_no_warnings:
  assumes hit: "cached env tr text = Some existing"
  shows "\<exists>resp tr'. VerifyText e env tr text = Some (Inr resp, tr')
           \<and> r_Analysis resp = existing
           \<and> r_Warnings resp = []
           \<and> r_Claims resp =
               fst (store_GetClaimsByAnalysis env (GetAnalysisByHash (sha256_hex env text) # tr)
                      (a_ID existing))"
  using VerifyText_hit[OF hit, of e] by simp

lemma airGapped_verifyOne:
  assumes "airGapped e"
  shows "\<exists>c' tr'. verifyOne e env tr c = Some ((c', []), tr') \<and> c_SourceType c' = SourceTypeModelBased"
proof -
  obtain st cf rs er tr1 where v: "VerifyWithoutEvidence env tr c = ((st, cf, rs, er), tr1)"
    by (metis prod_cases4 surj_pair)
  then show ?thesis using assms by (simp add: verifyOne_def settle_def)
qed

lemma airGapped_verifyClaims:
  assumes "airGapped e"
  shows "\<exists>cs' tr'. verifyClaims e env tr cs = Some ((cs', []), tr')
           \<and> length cs' = length cs \<and> (\<forall>c\<in>set cs'. c_SourceType c = SourceTypeModelBased)"
proof (induction cs arbitrary: tr)
  case Nil
  then show ?case by simp
next
  case (Cons c cs)
  obtain c' tr1 where one: "verifyOne e env tr c = Some ((c', []), tr1)"
    and tag: "c_SourceType c' = SourceTypeModelBased"
    using airGapped_verifyOne[OF assms] by blast
  obtain cs' tr2 where more: "verifyClaims e env tr1 cs = Some ((cs', []), tr2)"
    and len: "length cs' = length cs"
    and tags: "\<forall>c\<in>set cs'. c_SourceType c = SourceTypeModelBased"
    using Cons.IH by blast
  show ?case using one tag more len tags by simp
qed

lemma runPipeline_claims:
  assumes "runPipeline e env tr text h st = Some (Inr resp, tr')"
  shows "\<exists>claims0 tr1 ws tr2.
           Extract (extractor e) env tr text = (Inr claims0, tr1)
         \<and> verifyClaims e env tr1 claims0 = Some ((r_Claims resp, ws), tr2)"
proof -
  obtain x tr1 where ex: "Extract (extractor e) env tr text = (x, tr1)"
    by (cases "Extract (extractor e) env tr text")
  with assms obtain claims0 where x: "x = Inr claims0"
    by (cases x) (auto simp: runPipeline_def)
  from assms ex x obtain cs ws tr2 where
    vc: "verifyClaims e env tr1 claims0 = Some ((cs, ws), tr2)"
    by (auto simp: runPipeline_def split: option.splits)
  have "r_Claims resp = cs"
    using assms ex x vc by (auto simp: runPipeline_def split: prod.splits)
  then show ?thesis using ex x vc by auto
qed

text \<open>
  C6, amended: for an engine built with no available search source, the aggregator's
  \<open>Search\<close> returns no evidence and the single warning "No search sources configured",
  the engine is air-gapped, \<open>verifyClaims\<close> completes on every claim list and tags every
  claim it returns \<open>model_based\<close>, and every claim of the final response of a run that is
  not answered from the store is tagged \<open>model_based\<close>.
\<close>

theorem C6_air_gapped_model_based:
  assumes none: "\<not> HasClients (searchClient (NewEngine cfg ct env))"
  shows "Search (searchClient (NewEngine cfg ct env)) env tr query n = Some (([], [noSourcesWarning]), tr)
       \<and> (\<exists>cs' ws tr'. verifyClaims (NewEngine cfg ct env) env tr cs = Some ((cs', ws), tr')
             \<and> length cs' = length cs
             \<and> (\<forall>c\<in>set cs'. c_SourceType c = SourceTypeModelBased))
       \<and> (cached env tr text = None
            \<and> VerifyText (NewEngine cfg ct env) env tr text = Some (Inr resp, tr2)
          \<longrightarrow> (\<forall>c\<in>set (r_Claims resp). c_SourceType c = SourceTypeModelBased))"
proof -
  let ?e = "NewEngine cfg ct env"
  have ag: "airGapped ?e" using none by (simp add: NewEngine_def Let_def)
  have s: "Search (searchClient ?e) env tr query n = Some (([], [noSourcesWarning]), tr)"
    using none by (simp add: Search_def HasClients_def noSourcesWarning_def)
  have v: "\<exists>cs' ws tr'. verifyClaims ?e env tr cs = Some ((cs', ws), tr')
             \<and> length cs' = length cs
             \<and> (\<forall>c\<in>set cs'. c_SourceType c = SourceTypeModelBased)"
    using airGapped_verifyClaims[OF ag, of env tr cs] by blast
  have r: "\<forall>c\<in>set (r_Claims resp). c_SourceType c = SourceTypeModelBased"
    if miss: "cached env tr text = None"
      and run: "VerifyText ?e env tr text = Some (Inr resp, tr2)"
  proof -
    from run VerifyText_miss[OF miss, of ?e] obtain claims0 tr1 ws tr3 where
      vc: "verifyClaims ?e env tr1 claims0 = Some ((r_Claims resp, ws), tr3)"
      using runPipeline_claims by metis
    then show ?thesis using airGapped_verifyClaims[OF ag, of env tr1 claims0] by auto
  qed
  show ?thesis using s v r by blast
qed

section \<open>Runs of the concrete environment\<close>

lemma demo_miss: "cached demoEnv [] ''The bridge is old'' = None"
  by (simp add: cached_def demoEnv_def)

lemma demo_run_verified:
  "\<exists>resp tr'. VerifyText demoEngine demoEnv [] ''The bridge is old'' = Some (Inr resp, tr')
     \<and> r_Claims resp \<noteq> [] \<and> a_TotalClaims (r_Analysis resp) = 2
     \<and> a_OverallScore (r_Analysis resp) = 10"
  by (simp add: run_defs demo_defs)

lemma demo_run_airgapped:
  "\<exists>resp tr'. VerifyText demoAirGapped demoEnv [] ''The bridge is old'' = Some (Inr resp, tr')
     \<and> r_Claims resp \<noteq> []"
  by (simp add: run_defs demo_defs)

theorem C2_counts_and_score_range_witness:
  "cached demoEnv [] ''The bridge is old'' = None
   \<and> (\<exists>resp tr'. VerifyText demoEngine demoEnv [] ''The bridge is old'' = Some (Inr resp, tr')
        \<and> a_VerifiedClaims (r_Analysis resp) + a_MixedClaims (r_Analysis resp)
             + a_UnsupportedClaims (r_Analysis resp) = a_TotalClaims (r_Analysis resp)
        \<and> a_TotalClaims (r_Analysis resp) = 2
        \<and> 0 \<le> a_OverallScore (r_Analysis resp) \<and> a_OverallScore (r_Analysis resp) \<le> 10)"
proof -
  obtain resp tr' where run:
      "VerifyText demoEngine demoEnv [] ''The bridge is old'' = Some (Inr resp, tr')"
    and two: "a_TotalClaims (r_Analysis resp) = 2"
    using demo_run_verified by blast
  show ?thesis using C2_counts_and_score_range[OF demo_miss run] demo_miss run two by blast
qed

theorem C4_score_extremes_witness:
  "cached demoEnv [] ''The bridge is old'' = None
   \<and> (\<exists>resp tr'. VerifyText demoEngine demoEnv [] ''The bridge is old'' = Some (Inr resp, tr')
        \<and> r_Claims resp \<noteq> []
        \<and> a_OverallScore (r_Analysis resp) = 10
        \<and> (\<forall>c\<in>set (r_Claims resp). c_Status c = StatusVerified)
        \<and> \<not> (\<forall>c\<in>set (r_Claims resp). c_Status c = StatusUnsupported))"
proof -
  obtain resp tr' where run:
      "VerifyText demoEngine demoEnv [] ''The bridge is old'' = Some (Inr resp, tr')"
    and ne: "r_Claims resp \<noteq> []"
    and ten: "a_OverallScore (r_Analysis resp) = 10"
    using demo_run_verified by blast
  have "(a_OverallScore (r_Analysis resp) = 10
           \<longleftrightarrow> (\<forall>c\<in>set (r_Claims resp). c_Status c = StatusVerified))
      \<and> (a_OverallScore (r_Analysis resp) = 0
           \<longleftrightarrow> (\<forall>c\<in>set (r_Claims resp). c_Status c = StatusUnsupported))"
    using C4_score_extremes[OF demo_miss run] ne by blast
  then show ?thesis using demo_miss run ne ten by auto
qed

text \<open>
  C4, as the spec states it for every completed run, fails in two ways. A run whose
  extraction returns no claims has every claim (there is none) verified and the score 0,
  not 10. A run answered from the store returns the stored analysis with the claims that
  the store's lookup delivers: when the lookup is interrupted after the first of three
  rows, the response has one claim, which is verified, and the stored score 5.
\<close>

theorem C4_score_extremes_counterexample:
  "demoEmptyRun \<noteq> None \<and> \<not> isl (fst (the demoEmptyRun))
   \<and> set (map c_Status (r_Claims (projr (fst (the demoEmptyRun))))) \<subseteq> {StatusVerified}
   \<and> a_OverallScore (r_Analysis (projr (fst (the demoEmptyRun)))) \<noteq> 10
   \<and> demoPartialRun \<noteq> None \<and> \<not> isl (fst (the demoPartialRun))
   \<and> r_Claims (projr (fst (the demoPartialRun))) \<noteq> []
   \<and> set (map c_Status (r_Claims (projr (fst (the demoPartialRun))))) \<subseteq> {StatusVerified}
   \<and> a_OverallScore (r_Analysis (projr (fst (the demoPartialRun)))) \<noteq> 10"
  by (simp add: demoEmptyRun_def demoPartialRun_def demoEnvPartial_def demoVerifiedClaim_def
      demoClaim_def run_defs demo_defs)

lemma demo_run_broken:
  "\<exists>r tr'. VerifyText demoEngine demoEnv [] ''broken'' = Some (r, tr')"
  by (simp add: run_defs demo_defs)

theorem C3_cache_hit_no_work_witness:
  "cached demoEnv [] ''cached text'' = Some demoAnalysis
   \<and> (\<exists>resp tr'. VerifyText demoEngine demoEnv [] ''cached text'' = Some (Inr resp, tr')
        \<and> r_ID resp = ''analysis-1'' \<and> llmCalls tr' = 0 \<and> searchCalls tr' = 0)
   \<and> store_GetAnalysisByHash demoEnv [] (sha256_hex demoEnv ''broken'')
       = (None, Some ''database is locked'')
   \<and> VerifyText demoEngine demoEnv [] ''broken'' =
       runPipeline demoEngine demoEnv [GetAnalysisByHash ''broken''] ''broken'' ''broken'' 0
   \<and> (\<exists>r tr'. VerifyText demoEngine demoEnv [] ''broken'' = Some (r, tr')
        \<and> LLMCall (ExtractPrompt [] ''broken'') 4096 \<in> set tr')"
proof -
  have hit: "cached demoEnv [] ''cached text'' = Some demoAnalysis"
    by (simp add: cached_def demoEnv_def)
  have err: "store_GetAnalysisByHash demoEnv [] (sha256_hex demoEnv ''broken'')
             = (None, Some ''database is locked'')"
    by (simp add: demoEnv_def)
  have h: "sha256_hex demoEnv ''broken'' = ''broken''" "time_Now demoEnv [] = 0"
    "customClaimTypes (extractor demoEngine) = []"
    by (simp_all add: demoEnv_def demoEngine_def NewEngine_def Let_def)
  have i: "a_ID demoAnalysis = ''analysis-1''" "llmCalls [] = 0" "searchCalls [] = 0"
    by (simp_all add: demoAnalysis_def llmCalls_def searchCalls_def)
  obtain r tr' where run: "VerifyText demoEngine demoEnv [] ''broken'' = Some (r, tr')"
    using demo_run_broken by blast
  note hitc = C3_cache_hit_no_work[of demoEnv "[]" "''cached text''" demoAnalysis demoEngine
                "''none''"]
  note errc = C3_cache_hit_no_work[of demoEnv "[]" "''broken''" demoAnalysis demoEngine
                "''database is locked''"]
  have first: "\<exists>resp tr'. VerifyText demoEngine demoEnv [] ''cached text'' = Some (Inr resp, tr')
        \<and> r_ID resp = ''analysis-1'' \<and> llmCalls tr' = 0 \<and> searchCalls tr' = 0"
    using hitc hit i by auto
  have second: "VerifyText demoEngine demoEnv [] ''broken'' =
       runPipeline demoEngine demoEnv [GetAnalysisByHash ''broken''] ''broken'' ''broken'' 0"
    using errc err h by simp
  have third: "LLMCall (ExtractPrompt [] ''broken'') 4096 \<in> set tr'"
    using errc err h run by auto
  show ?thesis using hit first err second run third by blast
qed

theorem C9_cache_hit_no_warnings_witness:
  "cached demoEnv [] ''cached text'' = Some demoAnalysis
   \<and> (\<exists>resp tr'. VerifyText demoEngine demoEnv [] ''cached text'' = Some (Inr resp, tr')
        \<and> r_Warnings resp = [] \<and> r_Claims resp = []
        \<and> a_TotalClaims (r_Analysis resp) = 3)"
proof -
  have hit: "cached demoEnv [] ''cached text'' = Some demoAnalysis"
    by (simp add: cached_def demoEnv_def)
  have gone: "store_GetClaimsByAnalysis demoEnv
                (GetAnalysisByHash (sha256_hex demoEnv ''cached text'') # []) (a_ID demoAnalysis)
              = ([], Some ''database is locked'')"
    by (simp add: demoEnv_def)
  have three: "a_TotalClaims demoAnalysis = 3" by (simp add: demoAnalysis_def)
  show ?thesis
    using C9_cache_hit_no_warnings[OF hit, of demoEngine] hit gone three by auto
qed

theorem C6_air_gapped_model_based_witness:
  "\<not> HasClients (searchClient (NewEngine \<lparr> DuckDuckGo = False, PubMed = False \<rparr> [] demoEnv))
   \<and> Search (searchClient (NewEngine \<lparr> DuckDuckGo = False, PubMed = False \<rparr> [] demoEnv)) demoEnv []
        ''The bridge opened in 1932'' 6 = Some (([], [noSourcesWarning]), [])
   \<and> (\<exists>cs' ws tr'. verifyClaims (NewEngine \<lparr> DuckDuckGo = False, PubMed = False \<rparr> [] demoEnv) demoEnv []
          [demoClaim] = Some ((cs', ws), tr')
        \<and> length cs' = 1 \<and> (\<forall>c\<in>set cs'. c_SourceType c = SourceTypeModelBased))
   \<and> cached demoEnv [] ''The bridge is old'' = None
   \<and> (\<exists>resp tr2. VerifyText (NewEngine \<lparr> DuckDuckGo = False, PubMed = False \<rparr> [] demoEnv) demoEnv []
          ''The bridge is old'' = Some (Inr resp, tr2)
        \<and> r_Claims resp \<noteq> []
        \<and> (\<forall>c\<in>set (r_Claims resp). c_SourceType c = SourceTypeModelBased))"
proof -
  let ?e = "NewEngine \<lparr> DuckDuckGo = False, PubMed = False \<rparr> [] demoEnv"
  have none: "\<not> HasClients (searchClient ?e)"
    by (simp add: NewEngine_def NewAggregatedSearchClient_def HasClients_def)
  obtain resp tr2 where run: "VerifyText ?e demoEnv [] ''The bridge is old'' = Some (Inr resp, tr2)"
    and ne: "r_Claims resp \<noteq> []"
    using demo_run_airgapped by (auto simp: demoAirGapped_def)
  note c6 = C6_air_gapped_model_based[OF none, of "[]" "''The bridge opened in 1932''" 6 "[demoClaim]"
                 "''The bridge is old''" resp tr2]
  show ?thesis using c6 none demo_miss run ne by auto
qed

lemma demo_first_run:
  "\<exists>resp tr1. demoFirstRun = Some (Inr resp, tr1)
     \<and> map c_SourceType (r_Claims resp) = [SourceTypeEvidenceBacked, SourceTypeEvidenceBacked]
     \<and> savedAnalysis tr1 ''The bridge is old'' = Some (r_Analysis resp)
     \<and> savedClaims tr1 (a_ID (r_Analysis resp)) = r_Claims resp"
  by (simp add: demoFirstRun_def demoEnvPersist_def run_defs demo_defs)

text \<open>
  C6, as the spec states it, fails for a run answered from the store: a first run with
  both sources enabled saves its two claims, tagged \<open>evidence_backed\<close>; a second run on
  the same text with an engine that has no source finds the saved analysis and returns
  the saved claims with their tags, before it looks at its air-gapped flag.
\<close>

theorem C6_air_gapped_model_based_counterexample:
  "\<not> HasClients (searchClient demoAirGapped) \<and> airGapped demoAirGapped
   \<and> demoSecondRun \<noteq> None \<and> \<not> isl (fst (the demoSecondRun))
   \<and> map c_SourceType (r_Claims (projr (fst (the demoSecondRun))))
       = [SourceTypeEvidenceBacked, SourceTypeEvidenceBacked]
   \<and> SourceTypeEvidenceBacked \<noteq> SourceTypeModelBased"
proof -
  obtain resp tr1 where first: "demoFirstRun = Some (Inr resp, tr1)"
    and tags: "map c_SourceType (r_Claims resp) = [SourceTypeEvidenceBacked, SourceTypeEvidenceBacked]"
    and sa: "savedAnalysis tr1 ''The bridge is old'' = Some (r_Analysis resp)"
    and sc: "savedClaims tr1 (a_ID (r_Analysis resp)) = r_Claims resp"
    using demo_first_run by (elim exE conjE)
  have hit: "cached demoEnvPersist tr1 ''The bridge is old'' = Some (r_Analysis resp)"
    using sa by (simp add: cached_def demoEnvPersist_def demoEnv_def)
  have second: "demoSecondRun =
      Some (Inr \<lparr> r_ID = a_ID (r_Analysis resp),
                  r_DocumentHash = ''The bridge is old'',
                  r_Analysis = r_Analysis resp,
                  r_Claims = r_Claims resp,
                  r_Warnings = [] \<rparr>,
            GetClaimsByAnalysis (a_ID (r_Analysis resp)) # GetAnalysisByHash ''The bridge is old'' # tr1)"
  proof -
    have t: "snd (the demoFirstRun) = tr1" by (simp add: first)
    have h: "sha256_hex demoEnvPersist ''The bridge is old'' = ''The bridge is old''"
      by (simp add: demoEnvPersist_def demoEnv_def)
    have g: "fst (store_GetClaimsByAnalysis demoEnvPersist
                    (GetAnalysisByHash ''The bridge is old'' # tr1) (a_ID (r_Analysis resp)))
             = r_Claims resp"
      using sc by (simp add: demoEnvPersist_def)
    show ?thesis
      unfolding demoSecondRun_def t
      using VerifyText_hit[OF hit, of demoAirGapped] by (simp only: h g)
  qed
  have ag: "\<not> HasClients (searchClient demoAirGapped) \<and> airGapped demoAirGapped"
    by (simp add: demoAirGapped_def NewEngine_def NewAggregatedSearchClient_def HasClients_def)
  have ne: "SourceTypeEvidenceBacked \<noteq> SourceTypeModelBased"
    by (simp add: SourceTypeEvidenceBacked_def SourceTypeModelBased_def)
  show ?thesis using ag ne tags by (simp add: second)
qed

section \<open>What the aggregator merges\<close>

lemma mset_without_nth:
  assumes "k < length xs"
  shows "mset xs = add_mset (xs ! k) (mset (take k xs @ drop (Suc k) xs))"
proof -
  have "mset xs = mset (take k xs @ xs ! k # drop (Suc k) xs)"
    by (rule arg_cong[where f = mset, OF id_take_nth_drop[OF assms]])
  also have "\<dots> = add_mset (xs ! k) (mset (take k xs @ drop (Suc k) xs))" by simp
  finally show ?thesis .
qed

lemma collect_receipts:
  "collect n sched pending timer evs0 ws0 = Some (evs, ws) \<Longrightarrow>
   evs = evs0 @ concat (map sr_Evidences (withoutError (receipts (take n sched) pending)))"
proof (induction n sched pending timer evs0 ws0 rule: collect.induct)
  case (1 sched pending timer allEvidences warnings)
  then show ?case by (simp add: withoutError_def)
next
  case (2 n pending timer allEvidences warnings)
  then show ?case by simp
next
  case (3 n k sched pending timer allEvidences warnings)
  from "3.prems" have k: "k < length pending" by (simp split: if_splits)
  let ?result = "pending ! k" and ?rest = "take k pending @ drop (Suc k) pending"
  have r: "receipts (take (Suc n) (RecvResult k # sched)) pending
             = ?result # receipts (take n sched) ?rest"
    using k by simp
  show ?case
  proof (cases "sr_Error ?result")
    case None
    with "3.prems" k have
      "collect n sched ?rest timer (allEvidences @ sr_Evidences ?result) warnings = Some (evs, ws)"
      by (simp add: Let_def)
    from "3.IH"(1)[OF k refl refl None this] show ?thesis
      unfolding r using None by (simp add: withoutError_def)
  next
    case (Some err)
    with "3.prems" k have
      "collect n sched ?rest timer allEvidences
         (warnings @ [\<lparr> w_Source = sr_Source ?result, w_Message = err \<rparr>]) = Some (evs, ws)"
      by (simp add: Let_def)
    from "3.IH"(2)[OF k refl refl Some this] show ?thesis
      unfolding r using Some by (simp add: withoutError_def)
  qed
next
  case (4 n sched pending timer allEvidences warnings)
  then show ?case by (simp split: if_splits)
next
  case (5 n sched pending timer allEvidences warnings)
  then show ?case by simp
qed

lemma receipts_mset: "mset (receipts sched pending) \<subseteq># mset pending"
proof (induction sched pending rule: receipts.induct)
  case (1 pending)
  then show ?case by simp
next
  case (2 k sched pending)
  show ?case
  proof (cases "k < length pending")
    case True
    let ?rest = "take k pending @ drop (Suc k) pending"
    have "mset (pending ! k # receipts sched ?rest) \<subseteq># add_mset (pending ! k) (mset ?rest)"
      using "2.IH"[OF True] by (simp only: mset.simps mset_subset_eq_add_mset_cancel)
    then show ?thesis
      using True by (simp only: receipts.simps if_True mset_without_nth[OF True, symmetric])
  next
    case False
    then show ?thesis by simp
  qed
next
  case (3 sched pending)
  then show ?case by simp
next
  case (4 sched pending)
  then show ?case by simp
qed

text \<open>
  C1, amended: whenever \<open>Search\<close> with at least one available source returns, its merged
  evidence list is exactly the concatenation, in the order of receipt, of the evidence
  lists of the results that the loop received without error, each of them a result of
  one launched source, used once. Nothing is removed from these lists: the aggregator
  neither deduplicates by source URL nor drops evidences with an empty snippet.
\<close>

theorem C1_merged_is_concatenation:
  assumes "Search a env tr query n = Some ((evs, ws), tr')" and "clients a \<noteq> []"
  shows "evs = concat (map sr_Evidences (withoutError
                 (receipts (take (length (clients a)) (select_schedule env tr'))
                           (fst (launch tr query n (clients a))))))
       \<and> mset (receipts (take (length (clients a)) (select_schedule env tr'))
                         (fst (launch tr query n (clients a))))
           \<subseteq># mset (fst (launch tr query n (clients a)))"
proof -
  obtain results tr1 where l: "launch tr query n (clients a) = (results, tr1)"
    by (cases "launch tr query n (clients a)")
  with assms have c: "collect (length (clients a)) (select_schedule env tr1) results True [] [] = Some (evs, ws)"
    and t: "tr' = tr1"
    by (auto simp: Search_def split: option.splits)
  from collect_receipts[OF c] receipts_mset show ?thesis using l t by simp
qed

lemma demo_search_value:
  "demoSearch =
     Some (([demoEvidence ''DuckDuckGo'' ''http://a.example/x'' ''opened in 1932'',
             demoEvidence ''PubMed'' ''http://a.example/x'' []], []),
           [SourceSearch ''PubMed'' ''The bridge opened in 1932'' 6,
            SourceSearch ''DuckDuckGo'' ''The bridge opened in 1932'' 6])"
  by (simp add: demoSearch_def run_defs demo_defs)

text \<open>
  C1, as the spec states it, fails when two sources report the same address, one of them
  with an empty snippet: both evidences are in the merged list.
\<close>

theorem C1_counterexample:
  "clients (searchClient demoEngine) \<noteq> [] \<and> demoSearch \<noteq> None
   \<and> \<not> distinct (map e_SourceURL (fst (fst (the demoSearch))))
   \<and> [] \<in> set (map e_Snippet (fst (fst (the demoSearch))))"
proof -
  have "clients (searchClient demoEngine) \<noteq> []"
    by (simp add: demoEngine_def NewEngine_def NewAggregatedSearchClient_def
        NewDuckDuckGoClient_def NewPubMedClient_def Let_def)
  then show ?thesis
    by (simp add: demo_search_value demoEvidence_def)
qed

lemma demo_receipts:
  "receipts (take (length (clients (searchClient demoEngine)))
               (select_schedule demoEnv
                  [SourceSearch ''PubMed'' ''The bridge opened in 1932'' 6,
                   SourceSearch ''DuckDuckGo'' ''The bridge opened in 1932'' 6]))
            (fst (launch [] ''The bridge opened in 1932'' 6 (clients (searchClient demoEngine))))
   = [\<lparr> sr_Source = ''DuckDuckGo'',
         sr_Evidences = [demoEvidence ''DuckDuckGo'' ''http://a.example/x'' ''opened in 1932''],
         sr_Error = None \<rparr>,
      \<lparr> sr_Source = ''PubMed'',
         sr_Evidences = [demoEvidence ''PubMed'' ''http://a.example/x'' []],
         sr_Error = None \<rparr>]"
  by (simp add: run_defs demo_defs)

theorem C1_merged_is_concatenation_witness:
  "clients (searchClient demoEngine) \<noteq> []
   \<and> Search (searchClient demoEngine) demoEnv [] ''The bridge opened in 1932'' 6
       = Some (([demoEvidence ''DuckDuckGo'' ''http://a.example/x'' ''opened in 1932'',
                 demoEvidence ''PubMed'' ''http://a.example/x'' []], []),
               [SourceSearch ''PubMed'' ''The bridge opened in 1932'' 6,
                SourceSearch ''DuckDuckGo'' ''The bridge opened in 1932'' 6])
   \<and> [demoEvidence ''DuckDuckGo'' ''http://a.example/x'' ''opened in 1932'',
       demoEvidence ''PubMed'' ''http://a.example/x'' []]
       = concat (map sr_Evidences (withoutError
           [\<lparr> sr_Source = ''DuckDuckGo'',
               sr_Evidences = [demoEvidence ''DuckDuckGo'' ''http://a.example/x'' ''opened in 1932''],
               sr_Error = None \<rparr>,
            \<lparr> sr_Source = ''PubMed'',
               sr_Evidences = [demoEvidence ''PubMed'' ''http://a.example/x'' []],
               sr_Error = None \<rparr>]))"
proof -
  have ne: "clients (searchClient demoEngine) \<noteq> []"
    by (simp add: demoEngine_def NewEngine_def NewAggregatedSearchClient_def
        NewDuckDuckGoClient_def NewPubMedClient_def Let_def)
  have run: "Search (searchClient demoEngine) demoEnv [] ''The bridge opened in 1932'' 6
       = Some (([demoEvidence ''DuckDuckGo'' ''http://a.example/x'' ''opened in 1932'',
                 demoEvidence ''PubMed'' ''http://a.example/x'' []], []),
               [SourceSearch ''PubMed'' ''The bridge opened in 1932'' 6,
                SourceSearch ''DuckDuckGo'' ''The bridge opened in 1932'' 6])"
    using demo_search_value by (simp add: demoSearch_def)
  show ?thesis
    using C1_merged_is_concatenation[OF run ne] ne run by (simp only: demo_receipts) simp
qed

text \<open>
  C7, the code at the failing input: two sources are pending when the timer fires. The
  timeout case adds one warning and the loop goes on to its second iteration, where it
  receives the result of a source that was pending at the timeout and adds its evidence;
  while no further case can fire the loop has not returned.
\<close>

theorem C7_timeout_keeps_collecting:
  "demoSearchTimeout =
     Some (([demoEvidence ''DuckDuckGo'' ''http://a.example/x'' ''opened in 1932''],
            [\<lparr> w_Source = ''search'', w_Message = ''Some sources timed out'' \<rparr>]),
           [SourceSearch ''PubMed'' ''The bridge opened in 1932'' 6,
            SourceSearch ''DuckDuckGo'' ''The bridge opened in 1932'' 6])
   \<and> demoSearchStuck = None"
  by (simp add: demoSearchTimeout_def demoSearchStuck_def demoEnvStuck_def run_defs demo_defs)

end
